theory Spec2Isabelle
  imports Main "HOL-Library.Word"
begin

section \<open>Data model of the register allocator\<close>

text \<open>
  The allocator of \<^verbatim>\<open>src/inc/register_allocator.h\<close> and
  \<^verbatim>\<open>src/src/register_allocator.cc\<close>, as a state record and one function per member
  function. Every member function takes the allocator and returns the updated one.
\<close>

text \<open>
  Modelled from the spec: \<^verbatim>\<open>PHYSICAL_REGISTER_ID\<close> is declared in
  \<^verbatim>\<open>instruction.h\<close>, which is not among the sources; the spec's design notes give it
  as a signed 16-bit integer with \<open>-1\<close> for "no mapping", and the source agrees
  (\<^verbatim>\<open>fill(-1)\<close>, \<^verbatim>\<open>phys < 0\<close>). It is a 16-bit word read with \<open>sint\<close>.
  The instruction id type \<^verbatim>\<open>program_ordered<ooo_model_instr>::id_type\<close> is taken as
  the \<^verbatim>\<open>uint64_t\<close> that \<^verbatim>\<open>producing_instruction_id\<close> stores.
\<close>

type_synonym PHYSICAL_REGISTER_ID = "16 word"
type_synonym int16_t = "16 word"
type_synonym uint16_t = "16 word"
type_synonym uint64_t = "64 word"

record physical_register =
  arch_reg_index :: uint16_t
  producing_instruction_id :: uint64_t
  valid :: bool
  busy :: bool

record RenameCheckpoint =
  arch_reg :: int16_t
  old_phys_reg :: PHYSICAL_REGISTER_ID
  new_phys_reg :: PHYSICAL_REGISTER_ID
  instr_id :: uint64_t

text \<open>
  The two tables are \<^verbatim>\<open>std::array\<close>s of 256 entries: total functions on the 256
  values of an 8-bit index. The free list is a \<^verbatim>\<open>std::queue\<close> (front is the head of
  the list, push appends), the register file a \<^verbatim>\<open>std::vector\<close>, the rename history
  an \<^verbatim>\<open>std::unordered_map\<close> from instruction ids to vectors of checkpoints.
\<close>

record RegisterAllocator =
  frontend_RAT :: "8 word \<Rightarrow> PHYSICAL_REGISTER_ID"
  backend_RAT :: "8 word \<Rightarrow> PHYSICAL_REGISTER_ID"
  free_registers :: "PHYSICAL_REGISTER_ID list"
  physical_register_file :: "physical_register list"
  rename_history :: "uint64_t \<rightharpoonup> RenameCheckpoint list"

text \<open>
  How a call can fail. \<open>NoFreeRegister\<close> is the failing
  \<^verbatim>\<open>assert(!free_registers.empty())\<close> of \<^verbatim>\<open>rename_dest_register\<close>;
  \<open>TooManyRegisters\<close> the failing assertion of the constructor; \<open>OutOfRange\<close> the
  \<^verbatim>\<open>std::out_of_range\<close> thrown by \<^verbatim>\<open>vector::at\<close>; \<open>UndefinedBehaviour\<close> an
  unchecked \<^verbatim>\<open>std::array\<close> index outside the table or \<^verbatim>\<open>front()\<close> of an empty
  queue. A failure carries the allocator as it is at the moment of the failure.
\<close>

datatype error = NoFreeRegister | TooManyRegisters | OutOfRange | UndefinedBehaviour

type_synonym 'a outcome = "(error \<times> RegisterAllocator) + 'a"

definition UNMAPPED :: PHYSICAL_REGISTER_ID where
  "UNMAPPED = - 1"

text \<open>An \<^verbatim>\<open>int16_t\<close> used as index of a 256-entry \<^verbatim>\<open>std::array\<close>.\<close>

definition rat_index_ok :: "int16_t \<Rightarrow> bool" where
  "rat_index_ok reg \<longleftrightarrow> 0 \<le> sint reg \<and> sint reg < 256"

definition rat_index :: "int16_t \<Rightarrow> 8 word" where
  "rat_index reg = ucast reg"

text \<open>
  A physical register id used as index of the register file: \<^verbatim>\<open>vector::at\<close> takes a
  \<^verbatim>\<open>size_t\<close>, so a negative id becomes a huge index and is out of range.
\<close>

definition prf_index_ok :: "RegisterAllocator \<Rightarrow> PHYSICAL_REGISTER_ID \<Rightarrow> bool" where
  "prf_index_ok s physreg \<longleftrightarrow>
     0 \<le> sint physreg \<and> nat (sint physreg) < length (physical_register_file s)"

definition prf_index :: "PHYSICAL_REGISTER_ID \<Rightarrow> nat" where
  "prf_index physreg = nat (sint physreg)"

definition free_slot :: physical_register where
  "free_slot = \<lparr>arch_reg_index = 255, producing_instruction_id = 0, valid = False, busy = False\<rparr>"

section \<open>Member functions\<close>

text \<open>
  The constructor: the assertion bounds the count by the largest \<^verbatim>\<open>int16_t\<close>, the loop
  pushes \<open>0, 1, ..., n - 1\<close>.
\<close>

definition RegisterAllocator_new :: "nat \<Rightarrow> error + RegisterAllocator" where
  "RegisterAllocator_new num_physical_registers =
     (if \<not> num_physical_registers \<le> 32767 then Inl TooManyRegisters
      else Inr \<lparr>frontend_RAT = (\<lambda>_. - 1),
                backend_RAT = (\<lambda>_. - 1),
                free_registers = map of_nat [0..<num_physical_registers],
                physical_register_file =
                  replicate num_physical_registers
                    \<lparr>arch_reg_index = 0, producing_instruction_id = 0, valid = False, busy = False\<rparr>,
                rename_history = Map.empty\<rparr>)"

definition rename_dest_register ::
  "RegisterAllocator \<Rightarrow> int16_t \<Rightarrow> uint64_t \<Rightarrow> (RegisterAllocator \<times> PHYSICAL_REGISTER_ID) outcome" where
  "rename_dest_register s reg producer_id =
     (case free_registers s of
        [] \<Rightarrow> Inl (NoFreeRegister, s)
      | phys_reg # rest \<Rightarrow>
          (let s1 = s\<lparr>free_registers := rest\<rparr> in
           if \<not> rat_index_ok reg then Inl (UndefinedBehaviour, s1)
           else
             (let s2 = s1\<lparr>frontend_RAT := (frontend_RAT s1)(rat_index reg := phys_reg)\<rparr> in
              if \<not> prf_index_ok s2 phys_reg then Inl (OutOfRange, s2)
              else
                Inr (s2\<lparr>physical_register_file :=
                          (physical_register_file s2)[prf_index phys_reg :=
                             \<lparr>arch_reg_index = reg, producing_instruction_id = producer_id,
                              valid = False, busy = True\<rparr>]\<rparr>,
                     phys_reg))))"

definition rename_src_register ::
  "RegisterAllocator \<Rightarrow> int16_t \<Rightarrow> (RegisterAllocator \<times> PHYSICAL_REGISTER_ID) outcome" where
  "rename_src_register s reg =
     (if \<not> rat_index_ok reg then Inl (UndefinedBehaviour, s)
      else
        (let phys = frontend_RAT s (rat_index reg) in
         if sint phys < 0 then
           (case free_registers s of
              [] \<Rightarrow> Inl (UndefinedBehaviour, s)
            | phys' # rest \<Rightarrow>
                (let s1 = s\<lparr>free_registers := rest\<rparr>;
                     s2 = s1\<lparr>frontend_RAT := (frontend_RAT s1)(rat_index reg := phys')\<rparr>;
                     s3 = s2\<lparr>backend_RAT := (backend_RAT s2)(rat_index reg := phys')\<rparr>
                 in
                   if \<not> prf_index_ok s3 phys' then Inl (OutOfRange, s3)
                   else
                     Inr (s3\<lparr>physical_register_file :=
                               (physical_register_file s3)[prf_index phys' :=
                                  \<lparr>arch_reg_index = reg, producing_instruction_id = 0,
                                   valid = True, busy = True\<rparr>]\<rparr>,
                          phys')))
         else Inr (s, phys)))"

definition complete_dest_register ::
  "RegisterAllocator \<Rightarrow> PHYSICAL_REGISTER_ID \<Rightarrow> RegisterAllocator outcome" where
  "complete_dest_register s physreg =
     (if \<not> prf_index_ok s physreg then Inl (OutOfRange, s)
      else
        Inr (s\<lparr>physical_register_file :=
                  (physical_register_file s)[prf_index physreg :=
                     (physical_register_file s ! prf_index physreg)\<lparr>valid := True\<rparr>]\<rparr>))"

definition free_register ::
  "RegisterAllocator \<Rightarrow> PHYSICAL_REGISTER_ID \<Rightarrow> RegisterAllocator outcome" where
  "free_register s physreg =
     (if \<not> prf_index_ok s physreg then Inl (OutOfRange, s)
      else
        (let s1 = s\<lparr>physical_register_file :=
                      (physical_register_file s)[prf_index physreg :=
                         \<lparr>arch_reg_index = 255, producing_instruction_id = 0,
                          valid = False, busy = False\<rparr>]\<rparr>
         in Inr (s1\<lparr>free_registers := free_registers s1 @ [physreg]\<rparr>)))"

text \<open>
  \<^verbatim>\<open>retire_dest_register\<close> reads the architectural index as \<^verbatim>\<open>uint16_t\<close>, so the
  table index is in range when its unsigned value is below 256.
\<close>

definition retire_dest_register ::
  "RegisterAllocator \<Rightarrow> PHYSICAL_REGISTER_ID \<Rightarrow> RegisterAllocator outcome" where
  "retire_dest_register s physreg =
     (if \<not> prf_index_ok s physreg then Inl (OutOfRange, s)
      else
        (let archreg = arch_reg_index (physical_register_file s ! prf_index physreg) in
         if \<not> unat archreg < 256 then Inl (UndefinedBehaviour, s)
         else
           (let old_phys = backend_RAT s (ucast archreg);
                s1 = s\<lparr>backend_RAT := (backend_RAT s)(ucast archreg := physreg)\<rparr>
            in if old_phys \<noteq> - 1 then free_register s1 old_phys else Inr s1)))"

definition isValid :: "RegisterAllocator \<Rightarrow> PHYSICAL_REGISTER_ID \<Rightarrow> bool outcome" where
  "isValid s physreg =
     (if \<not> prf_index_ok s physreg then Inl (OutOfRange, s)
      else Inr (valid (physical_register_file s ! prf_index physreg)))"

definition isAllocated :: "RegisterAllocator \<Rightarrow> PHYSICAL_REGISTER_ID \<Rightarrow> bool outcome" where
  "isAllocated s archreg =
     (if \<not> rat_index_ok archreg then Inl (UndefinedBehaviour, s)
      else Inr (frontend_RAT s (rat_index archreg) \<noteq> - 1))"

definition count_free_registers :: "RegisterAllocator \<Rightarrow> nat" where
  "count_free_registers s = length (free_registers s)"

definition reset_frontend_RAT :: "RegisterAllocator \<Rightarrow> RegisterAllocator" where
  "reset_frontend_RAT s = s\<lparr>frontend_RAT := backend_RAT s\<rparr>"

definition get_current_mapping :: "RegisterAllocator \<Rightarrow> int16_t \<Rightarrow> PHYSICAL_REGISTER_ID" where
  "get_current_mapping s reg =
     (if sint reg < 0 \<or> 256 \<le> sint reg then - 1 else frontend_RAT s (rat_index reg))"

text \<open>
  \<^verbatim>\<open>rename_history[instr_id].push_back(...)\<close>: \<^verbatim>\<open>operator[]\<close> creates an empty
  vector for an absent key.
\<close>

definition record_rename ::
  "RegisterAllocator \<Rightarrow> uint64_t \<Rightarrow> int16_t \<Rightarrow> PHYSICAL_REGISTER_ID \<Rightarrow> PHYSICAL_REGISTER_ID
     \<Rightarrow> RegisterAllocator" where
  "record_rename s iid reg old_phys new_phys =
     (let checkpoints = (case rename_history s iid of None \<Rightarrow> [] | Some cps \<Rightarrow> cps) in
      s\<lparr>rename_history := (rename_history s)(iid \<mapsto>
           checkpoints @ [\<lparr>arch_reg = reg, old_phys_reg = old_phys,
                           new_phys_reg = new_phys, instr_id = iid\<rparr>])\<rparr>)"

text \<open>
  One iteration of the loop of \<^verbatim>\<open>undo_rename\<close>, for a checkpoint whose
  architectural register is a valid table index. The slot is written through the
  unchecked \<^verbatim>\<open>operator[]\<close> behind the range test, field by field.
\<close>

definition undo_checkpoint :: "RegisterAllocator \<Rightarrow> RenameCheckpoint \<Rightarrow> RegisterAllocator" where
  "undo_checkpoint s checkpoint =
     (let s1 = s\<lparr>frontend_RAT :=
                   (frontend_RAT s)(rat_index (arch_reg checkpoint) := old_phys_reg checkpoint)\<rparr>;
          s2 = (if 0 \<le> sint (new_phys_reg checkpoint)
                   \<and> nat (sint (new_phys_reg checkpoint)) < length (physical_register_file s1)
                then
                  s1\<lparr>physical_register_file :=
                       (physical_register_file s1)[prf_index (new_phys_reg checkpoint) :=
                          (physical_register_file s1 ! prf_index (new_phys_reg checkpoint))
                            \<lparr>valid := False, busy := False,
                             arch_reg_index := 255, producing_instruction_id := 0\<rparr>]\<rparr>
                else s1)
      in s2\<lparr>free_registers := free_registers s2 @ [new_phys_reg checkpoint]\<rparr>)"

text \<open>
  The loop, over the checkpoints in the order the reverse iterator visits them. Writing
  \<^verbatim>\<open>frontend_RAT[checkpoint.arch_reg]\<close> with an index outside the table is undefined.
\<close>

fun undo_loop :: "RegisterAllocator \<Rightarrow> RenameCheckpoint list \<Rightarrow> RegisterAllocator outcome" where
  "undo_loop s [] = Inr s"
| "undo_loop s (checkpoint # rest) =
     (if \<not> rat_index_ok (arch_reg checkpoint) then Inl (UndefinedBehaviour, s)
      else undo_loop (undo_checkpoint s checkpoint) rest)"

definition undo_rename :: "RegisterAllocator \<Rightarrow> uint64_t \<Rightarrow> RegisterAllocator outcome" where
  "undo_rename s iid =
     (case rename_history s iid of
        None \<Rightarrow> Inr s
      | Some checkpoints \<Rightarrow>
          (case undo_loop s (rev checkpoints) of
             Inl e \<Rightarrow> Inl e
           | Inr s' \<Rightarrow> Inr (s'\<lparr>rename_history := (rename_history s')(iid := None)\<rparr>)))"

definition retire_rename :: "RegisterAllocator \<Rightarrow> uint64_t \<Rightarrow> RegisterAllocator" where
  "retire_rename s iid =
     (case rename_history s iid of
        None \<Rightarrow> s
      | Some _ \<Rightarrow> s\<lparr>rename_history := (rename_history s)(iid := None)\<rparr>)"

definition get_producer :: "RegisterAllocator \<Rightarrow> PHYSICAL_REGISTER_ID \<Rightarrow> uint64_t" where
  "get_producer s phys_reg =
     (if 0 \<le> sint phys_reg \<and> nat (sint phys_reg) < length (physical_register_file s)
      then producing_instruction_id (physical_register_file s ! prf_index phys_reg)
      else 0)"

section \<open>Call sequences and auxiliary notions\<close>

text \<open>The allocator a call ended with, whether it returned or failed.\<close>

definition outcome_state :: "RegisterAllocator outcome \<Rightarrow> RegisterAllocator" where
  "outcome_state r = (case r of Inl (e, s) \<Rightarrow> s | Inr s \<Rightarrow> s)"

text \<open>
  The round trip of one destination rename: read the current mapping with
  \<^verbatim>\<open>get_current_mapping\<close>, rename with \<^verbatim>\<open>rename_dest_register\<close>, record the
  checkpoint (old mapping, new register) with \<^verbatim>\<open>record_rename\<close> under the same
  instruction id, then squash that instruction with \<^verbatim>\<open>undo_rename\<close>. The four
  functions are the source's; the order of the calls is the one the specification
  gives for the pipeline, which is not among the sources.
\<close>

definition rename_dest_then_undo ::
  "RegisterAllocator \<Rightarrow> int16_t \<Rightarrow> uint64_t \<Rightarrow> RegisterAllocator outcome" where
  "rename_dest_then_undo s reg iid =
     (let old_phys = get_current_mapping s reg in
      case rename_dest_register s reg iid of
        Inl e \<Rightarrow> Inl e
      | Inr (s1, new_phys) \<Rightarrow> undo_rename (record_rename s1 iid reg old_phys new_phys) iid)"

text \<open>Successive destination renames, one per request, stopping at the first failure.\<close>

fun rename_dest_all ::
  "RegisterAllocator \<Rightarrow> (int16_t \<times> uint64_t) list \<Rightarrow> RegisterAllocator outcome" where
  "rename_dest_all s [] = Inr s"
| "rename_dest_all s ((reg, producer_id) # rest) =
     (case rename_dest_register s reg producer_id of
        Inl e \<Rightarrow> Inl e
      | Inr (s', p) \<Rightarrow> rename_dest_all s' rest)"

text \<open>The state-changing operations of the public interface, as data.\<close>

datatype operation =
    Rename_dest int16_t uint64_t
  | Rename_src int16_t
  | Complete PHYSICAL_REGISTER_ID
  | Retire PHYSICAL_REGISTER_ID
  | Free_register PHYSICAL_REGISTER_ID
  | Record_rename uint64_t int16_t PHYSICAL_REGISTER_ID PHYSICAL_REGISTER_ID
  | Undo_rename uint64_t
  | Retire_rename uint64_t
  | Reset_frontend_RAT

fun perform :: "RegisterAllocator \<Rightarrow> operation \<Rightarrow> RegisterAllocator outcome" where
  "perform s (Rename_dest reg producer_id) =
     (case rename_dest_register s reg producer_id of Inl e \<Rightarrow> Inl e | Inr (s', p) \<Rightarrow> Inr s')"
| "perform s (Rename_src reg) =
     (case rename_src_register s reg of Inl e \<Rightarrow> Inl e | Inr (s', p) \<Rightarrow> Inr s')"
| "perform s (Complete physreg) = complete_dest_register s physreg"
| "perform s (Retire physreg) = retire_dest_register s physreg"
| "perform s (Free_register physreg) = free_register s physreg"
| "perform s (Record_rename iid reg old_phys new_phys) =
     Inr (record_rename s iid reg old_phys new_phys)"
| "perform s (Undo_rename iid) = undo_rename s iid"
| "perform s (Retire_rename iid) = Inr (retire_rename s iid)"
| "perform s Reset_frontend_RAT = Inr (reset_frontend_RAT s)"

text \<open>
  When an operation is legal in a state, after the preconditions the specification
  documents: architectural registers are table indices, a rename that allocates finds
  the free list non-empty, physical register ids are indices of the register file, and
  no register is pushed onto the free list while it is already there. The last is the
  precondition of \<^verbatim>\<open>free_register\<close>; \<^verbatim>\<open>retire_dest_register\<close> inherits it for
  the mapping it releases, and \<^verbatim>\<open>undo_rename\<close> for the registers its checkpoints
  name, each of them recorded once.
\<close>

fun legal :: "RegisterAllocator \<Rightarrow> operation \<Rightarrow> bool" where
  "legal s (Rename_dest reg producer_id) \<longleftrightarrow> free_registers s \<noteq> [] \<and> rat_index_ok reg"
| "legal s (Rename_src reg) \<longleftrightarrow>
     rat_index_ok reg \<and> (sint (frontend_RAT s (rat_index reg)) < 0 \<longrightarrow> free_registers s \<noteq> [])"
| "legal s (Complete physreg) \<longleftrightarrow> prf_index_ok s physreg"
| "legal s (Retire physreg) \<longleftrightarrow>
     prf_index_ok s physreg \<and>
     (let archreg = arch_reg_index (physical_register_file s ! prf_index physreg);
          old_phys = backend_RAT s (ucast archreg)
      in unat archreg < 256 \<and>
         (old_phys \<noteq> - 1 \<longrightarrow> prf_index_ok s old_phys \<and> old_phys \<notin> set (free_registers s)))"
| "legal s (Free_register physreg) \<longleftrightarrow>
     prf_index_ok s physreg \<and> physreg \<notin> set (free_registers s)"
| "legal s (Record_rename iid reg old_phys new_phys) \<longleftrightarrow> True"
| "legal s (Undo_rename iid) \<longleftrightarrow>
     (case rename_history s iid of
        None \<Rightarrow> True
      | Some checkpoints \<Rightarrow>
          (\<forall>c \<in> set checkpoints.
             rat_index_ok (arch_reg c) \<and> prf_index_ok s (new_phys_reg c)
             \<and> new_phys_reg c \<notin> set (free_registers s))
          \<and> distinct (map new_phys_reg checkpoints))"
| "legal s (Retire_rename iid) \<longleftrightarrow> True"
| "legal s Reset_frontend_RAT \<longleftrightarrow> True"

fun run :: "RegisterAllocator \<Rightarrow> operation list \<Rightarrow> RegisterAllocator outcome" where
  "run s [] = Inr s"
| "run s (x # xs) = (case perform s x of Inl e \<Rightarrow> Inl e | Inr s' \<Rightarrow> run s' xs)"

fun legal_run :: "RegisterAllocator \<Rightarrow> operation list \<Rightarrow> bool" where
  "legal_run s [] \<longleftrightarrow> True"
| "legal_run s (x # xs) \<longleftrightarrow>
     legal s x \<and> (case perform s x of Inl e \<Rightarrow> False | Inr s' \<Rightarrow> legal_run s' xs)"

definition count_busy :: "RegisterAllocator \<Rightarrow> nat" where
  "count_busy s = length (filter busy (physical_register_file s))"

text \<open>
  The link between the free list and the busy flags that the operations maintain: the
  free list names, each once, exactly the slots that are not busy.
\<close>

definition free_list_inv :: "PHYSICAL_REGISTER_ID list \<Rightarrow> physical_register list \<Rightarrow> bool" where
  "free_list_inv fr slots \<longleftrightarrow>
     (\<forall>p \<in> set fr. 0 \<le> sint p) \<and> distinct (map prf_index fr) \<and>
     set (map prf_index fr) = {i. i < length slots \<and> \<not> busy (slots ! i)}"

subsection \<open>Concrete allocators\<close>

text \<open>A new allocator with eight physical registers.\<close>

definition allocator8 :: RegisterAllocator where
  "allocator8 =
     \<lparr>frontend_RAT = (\<lambda>_. - 1), backend_RAT = (\<lambda>_. - 1),
      free_registers = [0, 1, 2, 3, 4, 5, 6, 7],
      physical_register_file =
        replicate 8 \<lparr>arch_reg_index = 0, producing_instruction_id = 0, valid = False, busy = False\<rparr>,
      rename_history = Map.empty\<rparr>"

text \<open>
  The same allocator after instruction 200 has renamed architectural register 7 twice,
  to the physical registers 0 and then 1, and recorded both renames.
\<close>

definition renamed_twice :: RegisterAllocator where
  "renamed_twice =
     \<lparr>frontend_RAT = (\<lambda>_. - 1)(7 := 1), backend_RAT = (\<lambda>_. - 1),
      free_registers = [2, 3, 4, 5, 6, 7],
      physical_register_file =
        replicate 2 \<lparr>arch_reg_index = 7, producing_instruction_id = 200, valid = False, busy = True\<rparr>
        @ replicate 6 \<lparr>arch_reg_index = 0, producing_instruction_id = 0, valid = False, busy = False\<rparr>,
      rename_history =
        [200 \<mapsto> [\<lparr>arch_reg = 7, old_phys_reg = - 1, new_phys_reg = 0, instr_id = 200\<rparr>,
                 \<lparr>arch_reg = 7, old_phys_reg = 0, new_phys_reg = 1, instr_id = 200\<rparr>]]\<rparr>"

text \<open>
  A new allocator in which instruction 300 has recorded a rename of architectural
  register 3 to the physical register 99, which the register file does not have.
\<close>

definition stray_checkpoint :: RegisterAllocator where
  "stray_checkpoint =
     allocator8\<lparr>rename_history :=
       [300 \<mapsto> [\<lparr>arch_reg = 3, old_phys_reg = - 1, new_phys_reg = 99, instr_id = 300\<rparr>]]\<rparr>"

text \<open>
  An allocator in which instruction 100 has renamed architectural register 5 to the
  physical register 0 and retired, and instruction 101 has renamed it again, to 1, and
  completed.
\<close>

definition retiring :: RegisterAllocator where
  "retiring =
     \<lparr>frontend_RAT = (\<lambda>_. - 1)(5 := 1), backend_RAT = (\<lambda>_. - 1)(5 := 0),
      free_registers = [2, 3, 4, 5, 6, 7],
      physical_register_file =
        [\<lparr>arch_reg_index = 5, producing_instruction_id = 100, valid = True, busy = True\<rparr>,
         \<lparr>arch_reg_index = 5, producing_instruction_id = 101, valid = True, busy = True\<rparr>]
        @ replicate 6 \<lparr>arch_reg_index = 0, producing_instruction_id = 0, valid = False, busy = False\<rparr>,
      rename_history = Map.empty\<rparr>"

section \<open>Facts about indices\<close>

lemma sint_of_nat_16: "i < 32768 \<Longrightarrow> sint (of_nat i :: 16 word) = int i"
  by (simp add: signed_of_nat signed_take_bit_int_eq_self)

lemma prf_index_of_nat: "i < 32768 \<Longrightarrow> prf_index (of_nat i) = i"
  by (simp add: prf_index_def sint_of_nat_16)

lemma prf_index_inj:
  "0 \<le> sint (p :: 16 word) \<Longrightarrow> 0 \<le> sint q \<Longrightarrow> prf_index p = prf_index q \<Longrightarrow> p = q"
  unfolding prf_index_def by (rule signed_word_eqI[where 'a=int]) simp

lemma reset_fields:
  "(r :: physical_register)\<lparr>valid := False, busy := False, arch_reg_index := 255,
       producing_instruction_id := 0\<rparr> = free_slot"
  by (simp add: free_slot_def)

lemma find_snoc:
  "find P (xs @ [x]) =
     (case find P xs of None \<Rightarrow> (if P x then Some x else None) | Some y \<Rightarrow> Some y)"
  by (induction xs) simp_all

section \<open>One iteration of the undo loop\<close>

lemma undo_checkpoint_backend [simp]:
  "backend_RAT (undo_checkpoint s c) = backend_RAT s"
  by (simp add: undo_checkpoint_def Let_def)

lemma undo_checkpoint_history [simp]:
  "rename_history (undo_checkpoint s c) = rename_history s"
  by (simp add: undo_checkpoint_def Let_def)

lemma undo_checkpoint_free [simp]:
  "free_registers (undo_checkpoint s c) = free_registers s @ [new_phys_reg c]"
  by (simp add: undo_checkpoint_def Let_def)

lemma undo_checkpoint_frontend [simp]:
  "frontend_RAT (undo_checkpoint s c) = (frontend_RAT s)(rat_index (arch_reg c) := old_phys_reg c)"
  by (simp add: undo_checkpoint_def Let_def)

lemma undo_checkpoint_prf:
  "physical_register_file (undo_checkpoint s c) =
     (if prf_index_ok s (new_phys_reg c)
      then (physical_register_file s)[prf_index (new_phys_reg c) := free_slot]
      else physical_register_file s)"
  by (simp add: undo_checkpoint_def Let_def prf_index_ok_def reset_fields)

lemma undo_checkpoint_length [simp]:
  "length (physical_register_file (undo_checkpoint s c)) = length (physical_register_file s)"
  by (simp add: undo_checkpoint_prf)

section \<open>The undo loop\<close>

lemma undo_loop_backend:
  "backend_RAT (outcome_state (undo_loop s cps)) = backend_RAT s"
  by (induction cps arbitrary: s) (simp_all add: outcome_state_def)

lemma undo_loop_Inr:
  "\<forall>c \<in> set cps. rat_index_ok (arch_reg c) \<Longrightarrow> \<exists>s'. undo_loop s cps = Inr s'"
  by (induction cps arbitrary: s) simp_all

lemma undo_loop_foldl:
  "\<forall>c \<in> set cps. rat_index_ok (arch_reg c) \<Longrightarrow> undo_loop s cps = Inr (foldl undo_checkpoint s cps)"
  by (induction cps arbitrary: s) simp_all

lemma undo_loop_history:
  "undo_loop s cps = Inr s' \<Longrightarrow> rename_history s' = rename_history s"
  by (induction cps arbitrary: s) (auto split: if_splits)

lemma undo_loop_free:
  "undo_loop s cps = Inr s' \<Longrightarrow> free_registers s' = free_registers s @ map new_phys_reg cps"
  by (induction cps arbitrary: s) (auto split: if_splits)

lemma undo_loop_length:
  "undo_loop s cps = Inr s' \<Longrightarrow>
     length (physical_register_file s') = length (physical_register_file s)"
  by (induction cps arbitrary: s) (auto split: if_splits)

lemma undo_loop_slot:
  "undo_loop s cps = Inr s' \<Longrightarrow> i < length (physical_register_file s) \<Longrightarrow>
     physical_register_file s' ! i =
       (if \<exists>c \<in> set cps. 0 \<le> sint (new_phys_reg c) \<and> prf_index (new_phys_reg c) = i
        then free_slot else physical_register_file s ! i)"
proof (induction cps arbitrary: s)
  case Nil
  then show ?case by simp
next
  case (Cons c cps)
  from Cons.prems have run: "undo_loop (undo_checkpoint s c) cps = Inr s'"
    by (auto split: if_splits)
  have "physical_register_file s' ! i =
       (if \<exists>c \<in> set cps. 0 \<le> sint (new_phys_reg c) \<and> prf_index (new_phys_reg c) = i
        then free_slot else physical_register_file (undo_checkpoint s c) ! i)"
    using Cons.IH [OF run] Cons.prems(2) by simp
  moreover have "physical_register_file (undo_checkpoint s c) ! i =
       (if 0 \<le> sint (new_phys_reg c) \<and> prf_index (new_phys_reg c) = i
        then free_slot else physical_register_file s ! i)"
    using Cons.prems(2) by (auto simp: undo_checkpoint_prf prf_index_ok_def prf_index_def)
  ultimately show ?case by auto
qed

lemma undo_loop_frontend:
  "undo_loop s cps = Inr s' \<Longrightarrow>
     frontend_RAT s' a =
       (case find (\<lambda>c. rat_index (arch_reg c) = a) (rev cps) of
          None \<Rightarrow> frontend_RAT s a
        | Some c \<Rightarrow> old_phys_reg c)"
proof (induction cps arbitrary: s)
  case Nil
  then show ?case by simp
next
  case (Cons c cps)
  from Cons.prems have run: "undo_loop (undo_checkpoint s c) cps = Inr s'"
    by (auto split: if_splits)
  show ?case
    using Cons.IH [OF run]
    by (auto simp: find_snoc split: option.splits)
qed

lemma undo_rename_Some:
  assumes "rename_history s iid = Some cps" and "\<forall>c \<in> set cps. rat_index_ok (arch_reg c)"
  obtains s1 where "undo_loop s (rev cps) = Inr s1"
    and "undo_rename s iid = Inr (s1\<lparr>rename_history := (rename_history s)(iid := None)\<rparr>)"
proof -
  from assms(2) obtain s1 where s1: "undo_loop s (rev cps) = Inr s1"
    using undo_loop_Inr [of "rev cps" s] by auto
  moreover have "undo_rename s iid = Inr (s1\<lparr>rename_history := (rename_history s)(iid := None)\<rparr>)"
    using assms(1) s1 undo_loop_history [OF s1] by (simp add: undo_rename_def)
  ultimately show thesis by (rule that)
qed

section \<open>Rolling back the renames of an instruction\<close>

text \<open>
  C1. \<^verbatim>\<open>undo_rename\<close> does nothing for an instruction id without history. For an id
  with checkpoints (whose architectural registers are table indices) it returns, having
  run the loop body over the checkpoints last to first and erased the entry. Each run of
  the body writes the checkpoint's old register into the frontend table, puts the free
  slot value into the slot of the new register, and pushes the new register. So the free
  list grows by the new registers in reverse order of recording, each slot named by a
  checkpoint holds the free slot value, and the frontend entry of an architectural
  register is the old register of its earliest checkpoint.
\<close>

theorem undo_rename_lifo:
  "(rename_history s iid = None \<longrightarrow> undo_rename s iid = Inr s) \<and>
   (\<forall>c. rat_index_ok (arch_reg c) \<and> prf_index_ok s (new_phys_reg c) \<longrightarrow>
      undo_checkpoint s c =
        s\<lparr>frontend_RAT := (frontend_RAT s)(rat_index (arch_reg c) := old_phys_reg c),
          physical_register_file :=
            (physical_register_file s)[prf_index (new_phys_reg c) := free_slot],
          free_registers := free_registers s @ [new_phys_reg c]\<rparr>) \<and>
   (\<forall>cps. rename_history s iid = Some cps \<and> (\<forall>c \<in> set cps. rat_index_ok (arch_reg c)) \<longrightarrow>
      (\<exists>s'. undo_rename s iid = Inr s' \<and>
         s' = (foldl undo_checkpoint s (rev cps))\<lparr>rename_history := (rename_history s)(iid := None)\<rparr> \<and>
         rename_history s' = (rename_history s)(iid := None) \<and>
         free_registers s' = free_registers s @ map new_phys_reg (rev cps) \<and>
         (\<forall>a. frontend_RAT s' a =
            (case find (\<lambda>c. rat_index (arch_reg c) = a) cps of
               None \<Rightarrow> frontend_RAT s a
             | Some c \<Rightarrow> old_phys_reg c)) \<and>
         length (physical_register_file s') = length (physical_register_file s) \<and>
         (\<forall>i < length (physical_register_file s).
            physical_register_file s' ! i =
              (if \<exists>c \<in> set cps. 0 \<le> sint (new_phys_reg c) \<and> prf_index (new_phys_reg c) = i
               then free_slot else physical_register_file s ! i))))"
proof (intro conjI allI impI)
  assume "rename_history s iid = None"
  then show "undo_rename s iid = Inr s" by (simp add: undo_rename_def)
next
  fix c :: RenameCheckpoint
  assume "rat_index_ok (arch_reg c) \<and> prf_index_ok s (new_phys_reg c)"
  then show "undo_checkpoint s c =
        s\<lparr>frontend_RAT := (frontend_RAT s)(rat_index (arch_reg c) := old_phys_reg c),
          physical_register_file :=
            (physical_register_file s)[prf_index (new_phys_reg c) := free_slot],
          free_registers := free_registers s @ [new_phys_reg c]\<rparr>"
    by (simp add: undo_checkpoint_def Let_def prf_index_ok_def reset_fields)
next
  fix cps
  assume "rename_history s iid = Some cps \<and> (\<forall>c \<in> set cps. rat_index_ok (arch_reg c))"
  then have h: "rename_history s iid = Some cps" and ok: "\<forall>c \<in> set cps. rat_index_ok (arch_reg c)"
    by simp_all
  from h ok obtain s1 where loop: "undo_loop s (rev cps) = Inr s1"
    and res: "undo_rename s iid = Inr (s1\<lparr>rename_history := (rename_history s)(iid := None)\<rparr>)"
    by (rule undo_rename_Some)
  have fold: "s1 = foldl undo_checkpoint s (rev cps)"
    using loop undo_loop_foldl [of "rev cps" s] ok by simp
  let ?s' = "s1\<lparr>rename_history := (rename_history s)(iid := None)\<rparr>"
  have "undo_rename s iid = Inr ?s'" by (rule res)
  moreover have "?s' = (foldl undo_checkpoint s (rev cps))\<lparr>rename_history := (rename_history s)(iid := None)\<rparr>"
    using fold by simp
  moreover have "rename_history ?s' = (rename_history s)(iid := None)" by simp
  moreover have "free_registers ?s' = free_registers s @ map new_phys_reg (rev cps)"
    using undo_loop_free [OF loop] by simp
  moreover have "\<forall>a. frontend_RAT ?s' a =
            (case find (\<lambda>c. rat_index (arch_reg c) = a) cps of
               None \<Rightarrow> frontend_RAT s a
             | Some c \<Rightarrow> old_phys_reg c)"
    using undo_loop_frontend [OF loop] by simp
  moreover have "length (physical_register_file ?s') = length (physical_register_file s)"
    using undo_loop_length [OF loop] by simp
  moreover have "\<forall>i < length (physical_register_file s).
            physical_register_file ?s' ! i =
              (if \<exists>c \<in> set cps. 0 \<le> sint (new_phys_reg c) \<and> prf_index (new_phys_reg c) = i
               then free_slot else physical_register_file s ! i)"
    using undo_loop_slot [OF loop] by simp
  ultimately show "\<exists>s'. undo_rename s iid = Inr s' \<and>
         s' = (foldl undo_checkpoint s (rev cps))\<lparr>rename_history := (rename_history s)(iid := None)\<rparr> \<and>
         rename_history s' = (rename_history s)(iid := None) \<and>
         free_registers s' = free_registers s @ map new_phys_reg (rev cps) \<and>
         (\<forall>a. frontend_RAT s' a =
            (case find (\<lambda>c. rat_index (arch_reg c) = a) cps of
               None \<Rightarrow> frontend_RAT s a
             | Some c \<Rightarrow> old_phys_reg c)) \<and>
         length (physical_register_file s') = length (physical_register_file s) \<and>
         (\<forall>i < length (physical_register_file s).
            physical_register_file s' ! i =
              (if \<exists>c \<in> set cps. 0 \<le> sint (new_phys_reg c) \<and> prf_index (new_phys_reg c) = i
               then free_slot else physical_register_file s ! i))"
    by blast
qed

theorem undo_rename_lifo_witness:
  "rename_history renamed_twice 200 =
     Some [\<lparr>arch_reg = 7, old_phys_reg = - 1, new_phys_reg = 0, instr_id = 200\<rparr>,
           \<lparr>arch_reg = 7, old_phys_reg = 0, new_phys_reg = 1, instr_id = 200\<rparr>] \<and>
   rat_index_ok 7 \<and>
   (\<exists>s'. undo_rename renamed_twice 200 = Inr s' \<and>
      frontend_RAT s' 7 = UNMAPPED \<and>
      free_registers s' = [2, 3, 4, 5, 6, 7, 1, 0] \<and>
      rename_history s' 200 = None \<and>
      physical_register_file s' ! 0 = free_slot \<and>
      physical_register_file s' ! 1 = free_slot \<and>
      physical_register_file s' ! 2 = physical_register_file renamed_twice ! 2)"
proof -
  let ?cps = "[\<lparr>arch_reg = 7, old_phys_reg = - 1, new_phys_reg = 0, instr_id = 200\<rparr>,
               \<lparr>arch_reg = 7, old_phys_reg = 0, new_phys_reg = 1, instr_id = 200\<rparr>]"
  have h: "rename_history renamed_twice 200 = Some ?cps"
    by (simp add: renamed_twice_def)
  have ok: "rat_index_ok 7"
    by (simp add: rat_index_ok_def)
  then have oks: "\<forall>c \<in> set ?cps. rat_index_ok (arch_reg c)"
    by simp
  from undo_rename_lifo [of renamed_twice 200] h oks
  obtain s' where s': "undo_rename renamed_twice 200 = Inr s'"
    "rename_history s' = (rename_history renamed_twice)(200 := None)"
    "free_registers s' = free_registers renamed_twice @ map new_phys_reg (rev ?cps)"
    "\<forall>a. frontend_RAT s' a =
            (case find (\<lambda>c. rat_index (arch_reg c) = a) ?cps of
               None \<Rightarrow> frontend_RAT renamed_twice a
             | Some c \<Rightarrow> old_phys_reg c)"
    "\<forall>i < length (physical_register_file renamed_twice).
            physical_register_file s' ! i =
              (if \<exists>c \<in> set ?cps. 0 \<le> sint (new_phys_reg c) \<and> prf_index (new_phys_reg c) = i
               then free_slot else physical_register_file renamed_twice ! i)"
    by blast
  have "frontend_RAT s' 7 = UNMAPPED"
    using s'(4) by (simp add: rat_index_def UNMAPPED_def)
  moreover have "free_registers s' = [2, 3, 4, 5, 6, 7, 1, 0]"
    using s'(3) by (simp add: renamed_twice_def)
  moreover have "rename_history s' 200 = None"
    using s'(2) by simp
  moreover have "physical_register_file s' ! 0 = free_slot"
    "physical_register_file s' ! 1 = free_slot"
    "physical_register_file s' ! 2 = physical_register_file renamed_twice ! 2"
    using s'(5) by (simp_all add: renamed_twice_def prf_index_def)
  ultimately show ?thesis using h ok s'(1) by blast
qed

text \<open>
  C7. \<^verbatim>\<open>undo_rename\<close> never writes the backend table: whether the call returns or
  stops at a checkpoint whose architectural register is no table index, the backend table
  of the allocator is the one from before the call.
\<close>

theorem undo_rename_keeps_backend_RAT:
  "backend_RAT (outcome_state (undo_rename s iid)) = backend_RAT s \<and>
   (\<forall>s'. undo_rename s iid = Inr s' \<longrightarrow> backend_RAT s' = backend_RAT s)"
proof -
  have a: "backend_RAT (outcome_state (undo_rename s iid)) = backend_RAT s"
  proof (cases "rename_history s iid")
    case None
    then show ?thesis by (simp add: undo_rename_def outcome_state_def)
  next
    case (Some cps)
    then show ?thesis
      using undo_loop_backend [of s "rev cps"]
      by (simp add: undo_rename_def outcome_state_def split: sum.splits prod.splits)
  qed
  then show ?thesis by (auto simp: outcome_state_def)
qed

theorem undo_rename_keeps_backend_RAT_witness:
  "\<exists>s'. undo_rename renamed_twice 200 = Inr s' \<and> backend_RAT s' = backend_RAT renamed_twice"
proof -
  have "rename_history renamed_twice 200 =
     Some [\<lparr>arch_reg = 7, old_phys_reg = - 1, new_phys_reg = 0, instr_id = 200\<rparr>,
           \<lparr>arch_reg = 7, old_phys_reg = 0, new_phys_reg = 1, instr_id = 200\<rparr>]"
    by (simp add: renamed_twice_def)
  then obtain s' where "undo_rename renamed_twice 200 = Inr s'"
    by (rule undo_rename_Some) (simp_all add: rat_index_ok_def)
  then show ?thesis
    using undo_rename_keeps_backend_RAT [of renamed_twice 200] by simp
qed

text \<open>
  C10. A checkpoint whose new register is no index of the register file: the loop body
  still restores the frontend entry and still pushes the register, and leaves the
  register file alone. So \<^verbatim>\<open>undo_rename\<close> (on checkpoints whose architectural
  registers are table indices) lengthens the free list by one per checkpoint whatever the
  range of the new registers, every new register is on the free list afterwards, also
  those that index no slot, and a slot that no in-range new register names is unchanged.
\<close>

theorem undo_rename_out_of_range:
  "(\<forall>c. \<not> prf_index_ok s (new_phys_reg c) \<longrightarrow>
      undo_checkpoint s c =
        s\<lparr>frontend_RAT := (frontend_RAT s)(rat_index (arch_reg c) := old_phys_reg c),
          free_registers := free_registers s @ [new_phys_reg c]\<rparr>) \<and>
   (\<forall>cps. rename_history s iid = Some cps \<and> (\<forall>c \<in> set cps. rat_index_ok (arch_reg c)) \<longrightarrow>
      (\<exists>s'. undo_rename s iid = Inr s' \<and>
         count_free_registers s' = count_free_registers s + length cps \<and>
         rename_history s' iid = None \<and>
         (\<forall>c \<in> set cps. new_phys_reg c \<in> set (free_registers s') \<and>
            (\<not> prf_index_ok s (new_phys_reg c) \<longrightarrow> \<not> prf_index_ok s' (new_phys_reg c))) \<and>
         (\<forall>i < length (physical_register_file s).
            (\<forall>c \<in> set cps. prf_index_ok s (new_phys_reg c) \<longrightarrow> prf_index (new_phys_reg c) \<noteq> i) \<longrightarrow>
            physical_register_file s' ! i = physical_register_file s ! i)))"
proof (intro conjI allI impI)
  fix c :: RenameCheckpoint
  assume "\<not> prf_index_ok s (new_phys_reg c)"
  then show "undo_checkpoint s c =
        s\<lparr>frontend_RAT := (frontend_RAT s)(rat_index (arch_reg c) := old_phys_reg c),
          free_registers := free_registers s @ [new_phys_reg c]\<rparr>"
    by (auto simp: undo_checkpoint_def Let_def prf_index_ok_def)
next
  fix cps
  assume "rename_history s iid = Some cps \<and> (\<forall>c \<in> set cps. rat_index_ok (arch_reg c))"
  then have h: "rename_history s iid = Some cps" and ok: "\<forall>c \<in> set cps. rat_index_ok (arch_reg c)"
    by simp_all
  from h ok obtain s1 where loop: "undo_loop s (rev cps) = Inr s1"
    and res: "undo_rename s iid = Inr (s1\<lparr>rename_history := (rename_history s)(iid := None)\<rparr>)"
    by (rule undo_rename_Some)
  let ?s' = "s1\<lparr>rename_history := (rename_history s)(iid := None)\<rparr>"
  have len: "length (physical_register_file s1) = length (physical_register_file s)"
    using undo_loop_length [OF loop] .
  have "count_free_registers ?s' = count_free_registers s + length cps"
    using undo_loop_free [OF loop] by (simp add: count_free_registers_def)
  moreover have "rename_history ?s' iid = None" by simp
  moreover have "\<forall>c \<in> set cps. new_phys_reg c \<in> set (free_registers ?s') \<and>
            (\<not> prf_index_ok s (new_phys_reg c) \<longrightarrow> \<not> prf_index_ok ?s' (new_phys_reg c))"
    using undo_loop_free [OF loop] len by (simp add: prf_index_ok_def)
  moreover have "\<forall>i < length (physical_register_file s).
            (\<forall>c \<in> set cps. prf_index_ok s (new_phys_reg c) \<longrightarrow> prf_index (new_phys_reg c) \<noteq> i) \<longrightarrow>
            physical_register_file ?s' ! i = physical_register_file s ! i"
    using undo_loop_slot [OF loop] by (auto simp: prf_index_ok_def prf_index_def)
  ultimately show "\<exists>s'. undo_rename s iid = Inr s' \<and>
         count_free_registers s' = count_free_registers s + length cps \<and>
         rename_history s' iid = None \<and>
         (\<forall>c \<in> set cps. new_phys_reg c \<in> set (free_registers s') \<and>
            (\<not> prf_index_ok s (new_phys_reg c) \<longrightarrow> \<not> prf_index_ok s' (new_phys_reg c))) \<and>
         (\<forall>i < length (physical_register_file s).
            (\<forall>c \<in> set cps. prf_index_ok s (new_phys_reg c) \<longrightarrow> prf_index (new_phys_reg c) \<noteq> i) \<longrightarrow>
            physical_register_file s' ! i = physical_register_file s ! i)"
    using res by blast
qed

theorem undo_rename_out_of_range_witness:
  "\<not> prf_index_ok stray_checkpoint 99 \<and>
   rename_history stray_checkpoint 300 =
     Some [\<lparr>arch_reg = 3, old_phys_reg = - 1, new_phys_reg = 99, instr_id = 300\<rparr>] \<and>
   rat_index_ok 3 \<and>
   (\<exists>s'. undo_rename stray_checkpoint 300 = Inr s' \<and>
      count_free_registers s' = 9 \<and>
      length (physical_register_file s') = 8 \<and>
      99 \<in> set (free_registers s') \<and>
      \<not> prf_index_ok s' 99 \<and>
      physical_register_file s' ! 0 = physical_register_file stray_checkpoint ! 0)"
proof -
  let ?cps = "[\<lparr>arch_reg = 3, old_phys_reg = - 1, new_phys_reg = 99, instr_id = 300\<rparr>]"
  have h: "rename_history stray_checkpoint 300 = Some ?cps"
    by (simp add: stray_checkpoint_def)
  have ok: "rat_index_ok 3"
    by (simp add: rat_index_ok_def)
  then have oks: "\<forall>c \<in> set ?cps. rat_index_ok (arch_reg c)"
    by simp
  have bad: "\<not> prf_index_ok stray_checkpoint 99"
    by (simp add: prf_index_ok_def stray_checkpoint_def allocator8_def)
  from undo_rename_out_of_range [of stray_checkpoint 300] h oks
  obtain s' where s': "undo_rename stray_checkpoint 300 = Inr s'"
    "count_free_registers s' = count_free_registers stray_checkpoint + length ?cps"
    "\<forall>c \<in> set ?cps. new_phys_reg c \<in> set (free_registers s') \<and>
       (\<not> prf_index_ok stray_checkpoint (new_phys_reg c) \<longrightarrow> \<not> prf_index_ok s' (new_phys_reg c))"
    "\<forall>i < length (physical_register_file stray_checkpoint).
       (\<forall>c \<in> set ?cps. prf_index_ok stray_checkpoint (new_phys_reg c) \<longrightarrow>
          prf_index (new_phys_reg c) \<noteq> i) \<longrightarrow>
       physical_register_file s' ! i = physical_register_file stray_checkpoint ! i"
    by blast
  have "count_free_registers s' = 9"
    using s'(2) by (simp add: count_free_registers_def stray_checkpoint_def allocator8_def)
  moreover have "99 \<in> set (free_registers s')" "\<not> prf_index_ok s' 99"
    using s'(3) bad by simp_all
  moreover have "physical_register_file s' ! 0 = physical_register_file stray_checkpoint ! 0"
    using s'(4) bad by (simp add: stray_checkpoint_def allocator8_def)
  moreover have "length (physical_register_file s') = 8"
    using \<open>\<not> prf_index_ok s' 99\<close> undo_loop_length [of stray_checkpoint "rev ?cps"] s'(1) h
    by (auto simp: undo_rename_def stray_checkpoint_def allocator8_def split: sum.splits)
  ultimately show ?thesis using h ok bad s'(1) by blast
qed

section \<open>Construction\<close>

lemma new_allocator8: "RegisterAllocator_new 8 = Inr allocator8"
  by (simp add: RegisterAllocator_new_def allocator8_def upt_rec)

lemma rename_dest_register_Inr:
  assumes "free_registers s = p # rest" and "rat_index_ok reg" and "prf_index_ok s p"
  shows "rename_dest_register s reg producer_id =
     Inr (s\<lparr>free_registers := rest,
            frontend_RAT := (frontend_RAT s)(rat_index reg := p),
            physical_register_file :=
              (physical_register_file s)[prf_index p :=
                 \<lparr>arch_reg_index = reg, producing_instruction_id = producer_id,
                  valid = False, busy = True\<rparr>]\<rparr>, p)"
  using assms by (simp add: rename_dest_register_def Let_def prf_index_ok_def)

text \<open>
  C9. The constructor, for a register count within the range of the ids, returns an
  allocator whose free list holds the ids \<open>0, ..., n - 1\<close> in ascending order (so
  \<^verbatim>\<open>count_free_registers\<close> is \<open>n\<close> and the first destination rename returns
  register 0), whose two tables are unmapped everywhere, whose history is empty, and
  whose slots all have \<open>arch_reg_index = 0\<close>: not the value 255 of the free slot that
  \<^verbatim>\<open>free_register\<close> writes.
\<close>

theorem constructor_state:
  assumes "n \<le> 32767"
  shows "\<exists>s. RegisterAllocator_new n = Inr s \<and>
     count_free_registers s = n \<and>
     free_registers s = map of_nat [0..<n] \<and>
     map sint (free_registers s) = map int [0..<n] \<and>
     (\<forall>a. frontend_RAT s a = UNMAPPED \<and> backend_RAT s a = UNMAPPED) \<and>
     rename_history s = Map.empty \<and>
     length (physical_register_file s) = n \<and>
     (\<forall>slot \<in> set (physical_register_file s).
        slot = \<lparr>arch_reg_index = 0, producing_instruction_id = 0, valid = False, busy = False\<rparr>
        \<and> slot \<noteq> free_slot) \<and>
     (\<forall>p. prf_index_ok s p \<longrightarrow>
        (\<exists>s'. free_register s p = Inr s' \<and> physical_register_file s' ! prf_index p = free_slot)) \<and>
     (0 < n \<longrightarrow> (\<forall>reg producer_id. rat_index_ok reg \<longrightarrow>
        (\<exists>s'. rename_dest_register s reg producer_id = Inr (s', 0))))"
proof -
  let ?s = "\<lparr>frontend_RAT = (\<lambda>_. - 1), backend_RAT = (\<lambda>_. - 1),
             free_registers = map of_nat [0..<n],
             physical_register_file =
               replicate n \<lparr>arch_reg_index = 0, producing_instruction_id = 0,
                            valid = False, busy = False\<rparr>,
             rename_history = Map.empty\<rparr>"
  have new: "RegisterAllocator_new n = Inr ?s"
    using assms by (simp add: RegisterAllocator_new_def)
  have "map sint (free_registers ?s) = map int [0..<n]"
    using assms by (simp add: sint_of_nat_16)
  moreover have "\<forall>p. prf_index_ok ?s p \<longrightarrow>
        (\<exists>s'. free_register ?s p = Inr s' \<and> physical_register_file s' ! prf_index p = free_slot)"
    by (simp add: free_register_def Let_def prf_index_ok_def prf_index_def free_slot_def)
  moreover have "0 < n \<longrightarrow> (\<forall>reg producer_id. rat_index_ok reg \<longrightarrow>
        (\<exists>s'. rename_dest_register ?s reg producer_id = Inr (s', 0)))"
  proof (intro impI allI)
    fix reg :: int16_t and producer_id :: uint64_t
    assume "0 < n" and ok: "rat_index_ok reg"
    then have "free_registers ?s = 0 # map of_nat [1..<n]"
      by (simp add: upt_rec [of 0])
    moreover have "prf_index_ok ?s 0"
      using \<open>0 < n\<close> by (simp add: prf_index_ok_def)
    ultimately show "\<exists>s'. rename_dest_register ?s reg producer_id = Inr (s', 0)"
      using rename_dest_register_Inr [of ?s 0 "map of_nat [1..<n]" reg producer_id] ok by blast
  qed
  ultimately show ?thesis
    using new by (simp add: count_free_registers_def UNMAPPED_def free_slot_def)
qed

theorem constructor_state_witness:
  "(8 :: nat) \<le> 32767 \<and> RegisterAllocator_new 8 = Inr allocator8 \<and>
   count_free_registers allocator8 = 8 \<and>
   free_registers allocator8 = [0, 1, 2, 3, 4, 5, 6, 7] \<and>
   arch_reg_index (physical_register_file allocator8 ! 3) = 0 \<and>
   (\<exists>s'. rename_dest_register allocator8 5 100 = Inr (s', 0))"
proof -
  have "rat_index_ok 5" by (simp add: rat_index_ok_def)
  then show ?thesis
    using constructor_state [of 8]
    by (simp add: new_allocator8) (simp add: allocator8_def count_free_registers_def)
qed

section \<open>Exhaustion\<close>

lemma rename_dest_all_exhausts:
  assumes "free_registers s = map of_nat [k..<n]" and "n \<le> 32767"
    and "length (physical_register_file s) = n" and "length reqs = n - k"
    and "\<forall>(reg, producer_id) \<in> set reqs. rat_index_ok reg"
  shows "\<exists>s'. rename_dest_all s reqs = Inr s' \<and> free_registers s' = []"
  using assms
proof (induction reqs arbitrary: s k)
  case Nil
  then show ?case by simp
next
  case (Cons r reqs)
  obtain reg producer_id where r: "r = (reg, producer_id)" by (cases r)
  from Cons.prems(4) have k: "k < n" by simp
  then have fr: "free_registers s = of_nat k # map of_nat [Suc k..<n]"
    using Cons.prems(1) by (simp add: upt_rec [of k])
  have ok: "rat_index_ok reg"
    using Cons.prems(5) r by simp
  have idx: "prf_index_ok s (of_nat k)"
    using k Cons.prems(2,3) by (simp add: prf_index_ok_def sint_of_nat_16)
  let ?s1 = "s\<lparr>free_registers := map of_nat [Suc k..<n],
            frontend_RAT := (frontend_RAT s)(rat_index reg := of_nat k),
            physical_register_file :=
              (physical_register_file s)[prf_index (of_nat k) :=
                 \<lparr>arch_reg_index = reg, producing_instruction_id = producer_id,
                  valid = False, busy = True\<rparr>]\<rparr>"
  have step: "rename_dest_register s reg producer_id = Inr (?s1, of_nat k)"
    using rename_dest_register_Inr [OF fr ok idx] .
  have "\<exists>s'. rename_dest_all ?s1 reqs = Inr s' \<and> free_registers s' = []"
    using Cons.prems by (intro Cons.IH [of ?s1 "Suc k"]) simp_all
  then show ?case
    using step r by simp
qed

text \<open>
  C6. With an empty free list \<^verbatim>\<open>rename_dest_register\<close> fails on its assertion, and
  the allocator at that point is the one it was called with. A new allocator with \<open>n\<close>
  registers serves \<open>n\<close> destination renames in a row (of architectural registers that
  are table indices); the free list is then empty and the next rename fails so.
\<close>

theorem rename_dest_exhaustion:
  "(free_registers s = [] \<longrightarrow>
      rename_dest_register s reg producer_id = Inl (NoFreeRegister, s)) \<and>
   (n \<le> 32767 \<and> length reqs = n \<and> (\<forall>(r, i) \<in> set reqs. rat_index_ok r) \<longrightarrow>
      (\<exists>s0 s'. RegisterAllocator_new n = Inr s0 \<and> rename_dest_all s0 reqs = Inr s' \<and>
         count_free_registers s' = 0 \<and>
         rename_dest_register s' reg producer_id = Inl (NoFreeRegister, s')))"
proof (intro conjI impI)
  assume "free_registers s = []"
  then show "rename_dest_register s reg producer_id = Inl (NoFreeRegister, s)"
    by (simp add: rename_dest_register_def)
next
  assume a: "n \<le> 32767 \<and> length reqs = n \<and> (\<forall>(r, i) \<in> set reqs. rat_index_ok r)"
  let ?s0 = "\<lparr>frontend_RAT = (\<lambda>_. - 1), backend_RAT = (\<lambda>_. - 1),
             free_registers = map of_nat [0..<n],
             physical_register_file =
               replicate n \<lparr>arch_reg_index = 0, producing_instruction_id = 0,
                            valid = False, busy = False\<rparr>,
             rename_history = Map.empty\<rparr>"
  have new: "RegisterAllocator_new n = Inr ?s0"
    using a by (simp add: RegisterAllocator_new_def)
  have "\<exists>s'. rename_dest_all ?s0 reqs = Inr s' \<and> free_registers s' = []"
    using a by (intro rename_dest_all_exhausts [of ?s0 0 n]) simp_all
  then obtain s' where s': "rename_dest_all ?s0 reqs = Inr s'" "free_registers s' = []"
    by blast
  then have "rename_dest_register s' reg producer_id = Inl (NoFreeRegister, s')"
    by (simp add: rename_dest_register_def)
  then show "\<exists>s0 s'. RegisterAllocator_new n = Inr s0 \<and> rename_dest_all s0 reqs = Inr s' \<and>
         count_free_registers s' = 0 \<and>
         rename_dest_register s' reg producer_id = Inl (NoFreeRegister, s')"
    using new s' by (auto simp: count_free_registers_def)
qed

theorem rename_dest_exhaustion_witness:
  "(8 :: nat) \<le> 32767 \<and>
   length [(1, 10), (2, 11), (3, 12), (4, 13), (1, 14), (2, 15), (3, 16), (4 :: int16_t, 17 :: uint64_t)] = 8 \<and>
   rat_index_ok 1 \<and> rat_index_ok 2 \<and> rat_index_ok 3 \<and> rat_index_ok 4 \<and>
   (\<exists>s'. rename_dest_all allocator8
            [(1, 10), (2, 11), (3, 12), (4, 13), (1, 14), (2, 15), (3, 16), (4, 17)] = Inr s' \<and>
      free_registers s' = [] \<and>
      rename_dest_register s' 5 18 = Inl (NoFreeRegister, s'))"
proof -
  let ?reqs = "[(1, 10), (2, 11), (3, 12), (4, 13), (1, 14), (2, 15), (3, 16), (4 :: int16_t, 17 :: uint64_t)]"
  have ok: "rat_index_ok 1" "rat_index_ok 2" "rat_index_ok 3" "rat_index_ok 4"
    by (simp_all add: rat_index_ok_def)
  then have oks: "\<forall>(r, i) \<in> set ?reqs. rat_index_ok r"
    by simp
  have "\<exists>s0 s'. RegisterAllocator_new 8 = Inr s0 \<and> rename_dest_all s0 ?reqs = Inr s' \<and>
         count_free_registers s' = 0 \<and>
         rename_dest_register s' 5 18 = Inl (NoFreeRegister, s')"
    using rename_dest_exhaustion [of _ _ _ 8 ?reqs] oks by simp
  then show ?thesis
    using ok by (auto simp: new_allocator8 count_free_registers_def)
qed

section \<open>Source renames\<close>

text \<open>
  C5. For an architectural register that is a table index: when the frontend table maps
  it to a physical register, \<^verbatim>\<open>rename_src_register\<close> returns that register and the
  allocator is unchanged. When the entry is unmapped and the front of the free list is a
  register of the file, it pops that register, marks its slot valid and busy with producer
  0 for this architectural register, writes it into both tables, leaves the rename history
  alone and returns it; a second call then returns the same register and changes nothing.
\<close>

theorem rename_src_register_cases:
  assumes "rat_index_ok a"
  shows "(0 \<le> sint (frontend_RAT s (rat_index a)) \<longrightarrow>
      rename_src_register s a = Inr (s, frontend_RAT s (rat_index a))) \<and>
   (frontend_RAT s (rat_index a) = UNMAPPED \<and> free_registers s = p # rest \<and> prf_index_ok s p \<longrightarrow>
      (\<exists>s'. rename_src_register s a = Inr (s', p) \<and>
         s' = s\<lparr>free_registers := rest,
                frontend_RAT := (frontend_RAT s)(rat_index a := p),
                backend_RAT := (backend_RAT s)(rat_index a := p),
                physical_register_file :=
                  (physical_register_file s)[prf_index p :=
                     \<lparr>arch_reg_index = a, producing_instruction_id = 0,
                      valid = True, busy = True\<rparr>]\<rparr> \<and>
         frontend_RAT s' (rat_index a) = p \<and> backend_RAT s' (rat_index a) = p \<and>
         physical_register_file s' ! prf_index p =
           \<lparr>arch_reg_index = a, producing_instruction_id = 0, valid = True, busy = True\<rparr> \<and>
         rename_history s' = rename_history s \<and>
         rename_src_register s' a = Inr (s', p)))"
proof (intro conjI impI)
  assume "0 \<le> sint (frontend_RAT s (rat_index a))"
  then show "rename_src_register s a = Inr (s, frontend_RAT s (rat_index a))"
    using assms by (simp add: rename_src_register_def Let_def)
next
  assume h: "frontend_RAT s (rat_index a) = UNMAPPED \<and> free_registers s = p # rest \<and> prf_index_ok s p"
  let ?s' = "s\<lparr>free_registers := rest,
                frontend_RAT := (frontend_RAT s)(rat_index a := p),
                backend_RAT := (backend_RAT s)(rat_index a := p),
                physical_register_file :=
                  (physical_register_file s)[prf_index p :=
                     \<lparr>arch_reg_index = a, producing_instruction_id = 0,
                      valid = True, busy = True\<rparr>]\<rparr>"
  have first: "rename_src_register s a = Inr (?s', p)"
    using assms h by (simp add: rename_src_register_def Let_def UNMAPPED_def prf_index_ok_def)
  have "0 \<le> sint (frontend_RAT ?s' (rat_index a))"
    using h by (simp add: prf_index_ok_def)
  then have again: "rename_src_register ?s' a = Inr (?s', p)"
    using assms by (simp add: rename_src_register_def Let_def)
  have slot: "physical_register_file ?s' ! prf_index p =
           \<lparr>arch_reg_index = a, producing_instruction_id = 0, valid = True, busy = True\<rparr>"
    using h by (simp add: prf_index_ok_def prf_index_def)
  show "\<exists>s'. rename_src_register s a = Inr (s', p) \<and>
         s' = ?s' \<and>
         frontend_RAT s' (rat_index a) = p \<and> backend_RAT s' (rat_index a) = p \<and>
         physical_register_file s' ! prf_index p =
           \<lparr>arch_reg_index = a, producing_instruction_id = 0, valid = True, busy = True\<rparr> \<and>
         rename_history s' = rename_history s \<and>
         rename_src_register s' a = Inr (s', p)"
    using first again slot by simp
qed

theorem rename_src_register_cases_witness:
  "rat_index_ok 3 \<and> 0 \<le> sint (frontend_RAT renamed_twice (rat_index 7)) \<and> rat_index_ok 7 \<and>
   frontend_RAT renamed_twice (rat_index 3) = UNMAPPED \<and>
   free_registers renamed_twice = 2 # [3, 4, 5, 6, 7] \<and> prf_index_ok renamed_twice 2 \<and>
   rename_src_register renamed_twice 7 = Inr (renamed_twice, 1) \<and>
   (\<exists>s'. rename_src_register renamed_twice 3 = Inr (s', 2) \<and>
      frontend_RAT s' (rat_index 3) = 2 \<and> backend_RAT s' (rat_index 3) = 2 \<and>
      free_registers s' = [3, 4, 5, 6, 7] \<and>
      rename_src_register s' 3 = Inr (s', 2))"
proof -
  have ok: "rat_index_ok 3" "rat_index_ok 7"
    by (simp_all add: rat_index_ok_def)
  have m: "0 \<le> sint (frontend_RAT renamed_twice (rat_index 7))"
    "frontend_RAT renamed_twice (rat_index 7) = 1"
    by (simp_all add: renamed_twice_def rat_index_def)
  have u: "frontend_RAT renamed_twice (rat_index 3) = UNMAPPED"
    by (simp add: renamed_twice_def rat_index_def UNMAPPED_def)
  have f: "free_registers renamed_twice = 2 # [3, 4, 5, 6, 7]"
    by (simp add: renamed_twice_def)
  have i: "prf_index_ok renamed_twice 2"
    by (simp add: renamed_twice_def prf_index_ok_def)
  have "rename_src_register renamed_twice 7 = Inr (renamed_twice, 1)"
    using rename_src_register_cases [OF ok(2), of renamed_twice] m by simp
  moreover have "\<exists>s'. rename_src_register renamed_twice 3 = Inr (s', 2) \<and>
      frontend_RAT s' (rat_index 3) = 2 \<and> backend_RAT s' (rat_index 3) = 2 \<and>
      free_registers s' = [3, 4, 5, 6, 7] \<and>
      rename_src_register s' 3 = Inr (s', 2)"
    using rename_src_register_cases [OF ok(1), of renamed_twice 2 "[3, 4, 5, 6, 7]"] u f i
    by auto
  ultimately show ?thesis
    using ok m u f i by blast
qed

section \<open>Retirement\<close>

lemma free_register_Inr:
  "prf_index_ok s p \<Longrightarrow>
     free_register s p =
       Inr (s\<lparr>physical_register_file := (physical_register_file s)[prf_index p := free_slot],
              free_registers := free_registers s @ [p]\<rparr>)"
  by (simp add: free_register_def Let_def free_slot_def)

text \<open>
  C4. \<^verbatim>\<open>retire_dest_register\<close> of a register \<open>p\<close> of the file, whose slot belongs to
  the architectural register \<open>a\<close> (a table index), with \<open>old\<close> the backend entry of \<open>a\<close>
  (unmapped or a register of the file): the call returns with the backend entry of \<open>a\<close>
  set to \<open>p\<close> and nothing else changed in the tables or the history. If \<open>old\<close> is
  unmapped, the register file and the free list are unchanged; otherwise the slot of
  \<open>old\<close> holds the free slot value and \<open>old\<close> has been pushed onto the free list.
\<close>

theorem retire_dest_register_effect:
  assumes "prf_index_ok s p"
    and "a = arch_reg_index (physical_register_file s ! prf_index p)" and "unat a < 256"
    and "old = backend_RAT s (ucast a)"
    and "old = UNMAPPED \<or> prf_index_ok s old"
  shows "\<exists>s'. retire_dest_register s p = Inr s' \<and>
     backend_RAT s' = (backend_RAT s)(ucast a := p) \<and>
     backend_RAT s' (ucast a) = p \<and>
     frontend_RAT s' = frontend_RAT s \<and>
     rename_history s' = rename_history s \<and>
     (old = UNMAPPED \<longrightarrow>
        physical_register_file s' = physical_register_file s \<and>
        free_registers s' = free_registers s) \<and>
     (old \<noteq> UNMAPPED \<longrightarrow>
        physical_register_file s' = (physical_register_file s)[prf_index old := free_slot] \<and>
        physical_register_file s' ! prf_index old = free_slot \<and>
        free_registers s' = free_registers s @ [old] \<and>
        old \<in> set (free_registers s'))"
proof (cases "old = UNMAPPED")
  case True
  then show ?thesis
    using assms by (simp add: retire_dest_register_def Let_def UNMAPPED_def)
next
  case False
  then have ok: "prf_index_ok (s\<lparr>backend_RAT := (backend_RAT s)(ucast a := p)\<rparr>) old"
    using assms(5) by (simp add: prf_index_ok_def)
  have "retire_dest_register s p =
      free_register (s\<lparr>backend_RAT := (backend_RAT s)(ucast a := p)\<rparr>) old"
    using assms False by (simp add: retire_dest_register_def Let_def UNMAPPED_def)
  then show ?thesis
    using False assms(5) free_register_Inr [OF ok]
    by (simp add: prf_index_ok_def prf_index_def)
qed

theorem retire_dest_register_effect_witness:
  "prf_index_ok retiring 1 \<and>
   arch_reg_index (physical_register_file retiring ! prf_index 1) = 5 \<and> unat (5 :: uint16_t) < 256 \<and>
   backend_RAT retiring (ucast (5 :: uint16_t)) = 0 \<and> prf_index_ok retiring 0 \<and>
   (0 :: PHYSICAL_REGISTER_ID) \<noteq> UNMAPPED \<and>
   (\<exists>s'. retire_dest_register retiring 1 = Inr s' \<and>
      backend_RAT s' 5 = 1 \<and>
      physical_register_file s' ! 0 = free_slot \<and>
      free_registers s' = [2, 3, 4, 5, 6, 7, 0])"
proof -
  have p: "prf_index_ok retiring 1" "prf_index_ok retiring 0"
    by (simp_all add: prf_index_ok_def retiring_def)
  have a: "(5 :: uint16_t) = arch_reg_index (physical_register_file retiring ! prf_index 1)"
    by (simp add: retiring_def prf_index_def)
  have b: "unat (5 :: uint16_t) < 256"
    by simp
  have old: "(0 :: PHYSICAL_REGISTER_ID) = backend_RAT retiring (ucast (5 :: uint16_t))"
    by (simp add: retiring_def)
  have n: "(0 :: PHYSICAL_REGISTER_ID) \<noteq> UNMAPPED"
    by (simp add: UNMAPPED_def)
  have "\<exists>s'. retire_dest_register retiring 1 = Inr s' \<and>
      backend_RAT s' 5 = 1 \<and>
      physical_register_file s' ! 0 = free_slot \<and>
      free_registers s' = [2, 3, 4, 5, 6, 7, 0]"
    using retire_dest_register_effect [OF p(1) a b old] p(2) n
    by (auto simp: prf_index_def retiring_def)
  then show ?thesis
    using p a [symmetric] b old [symmetric] n by blast
qed

section \<open>Rename followed by undo\<close>

lemma rename_dest_then_undo_Inr:
  assumes "rat_index_ok a" and "free_registers s = p # rest" and "prf_index_ok s p"
    and "rename_history s iid = None"
  shows "rename_dest_then_undo s a iid =
     Inr (s\<lparr>free_registers := rest @ [p],
            physical_register_file := (physical_register_file s)[prf_index p := free_slot]\<rparr>)"
proof -
  let ?c = "\<lparr>arch_reg = a, old_phys_reg = frontend_RAT s (rat_index a),
             new_phys_reg = p, instr_id = iid\<rparr>"
  let ?s1 = "s\<lparr>free_registers := rest,
            frontend_RAT := (frontend_RAT s)(rat_index a := p),
            physical_register_file :=
              (physical_register_file s)[prf_index p :=
                 \<lparr>arch_reg_index = a, producing_instruction_id = iid,
                  valid = False, busy = True\<rparr>]\<rparr>"
  let ?s2 = "?s1\<lparr>rename_history := (rename_history s)(iid \<mapsto> [?c])\<rparr>"
  have old: "get_current_mapping s a = frontend_RAT s (rat_index a)"
    using assms(1) by (simp add: get_current_mapping_def rat_index_ok_def)
  have ren: "rename_dest_register s a iid = Inr (?s1, p)"
    using rename_dest_register_Inr [OF assms(2,1,3)] .
  have rec: "record_rename ?s1 iid a (frontend_RAT s (rat_index a)) p = ?s2"
    using assms(4) by (simp add: record_rename_def)
  have ok2: "prf_index_ok ?s2 p"
    using assms(3) by (simp add: prf_index_ok_def)
  have step: "undo_checkpoint ?s2 ?c =
      ?s2\<lparr>frontend_RAT := frontend_RAT s,
           physical_register_file := (physical_register_file s)[prf_index p := free_slot],
           free_registers := rest @ [p]\<rparr>"
    using ok2 by (simp add: undo_checkpoint_def Let_def prf_index_ok_def reset_fields)
  have hist: "((rename_history s)(iid \<mapsto> [?c]))(iid := None) = rename_history s"
    using assms(4) by (metis fun_upd_triv fun_upd_upd)
  have hist': "(rename_history s)(iid := None) = rename_history s"
    using assms(4) by (metis fun_upd_triv)
  have "undo_rename ?s2 iid =
      Inr (s\<lparr>free_registers := rest @ [p],
            physical_register_file := (physical_register_file s)[prf_index p := free_slot]\<rparr>)"
    using assms(1) by (simp add: undo_rename_def step hist hist')
  then show ?thesis
    by (simp add: rename_dest_then_undo_def old ren rec)
qed

text \<open>
  C2, as the code has it. For an architectural register that is a table index, a free
  list whose front \<open>p\<close> is a register of the file, and an instruction id without history:
  renaming the register as destination, recording the rename and undoing the instruction
  returns; the two tables and the rename history are as before, \<open>p\<close> has moved from the
  front to the back of the free list, and the register file is as before except that the
  slot of \<open>p\<close> holds the free slot value. The whole register file is as before exactly
  when that slot held the free slot value already.
\<close>

theorem rename_dest_then_undo_restores:
  assumes "rat_index_ok a" and "free_registers s = p # rest" and "prf_index_ok s p"
    and "rename_history s iid = None"
  shows "\<exists>s'. rename_dest_then_undo s a iid = Inr s' \<and>
     frontend_RAT s' = frontend_RAT s \<and>
     backend_RAT s' = backend_RAT s \<and>
     rename_history s' = rename_history s \<and>
     free_registers s' = rest @ [p] \<and>
     physical_register_file s' = (physical_register_file s)[prf_index p := free_slot] \<and>
     (physical_register_file s' = physical_register_file s
        \<longleftrightarrow> physical_register_file s ! prf_index p = free_slot)"
proof -
  have "prf_index p < length (physical_register_file s)"
    using assms(3) by (simp add: prf_index_ok_def prf_index_def)
  then have "(physical_register_file s)[prf_index p := free_slot] = physical_register_file s
      \<longleftrightarrow> physical_register_file s ! prf_index p = free_slot"
    by (metis list_update_id nth_list_update_eq)
  then show ?thesis
    using rename_dest_then_undo_Inr [OF assms] by simp
qed

theorem rename_dest_then_undo_restores_witness:
  "rat_index_ok 5 \<and> free_registers allocator8 = 0 # [1, 2, 3, 4, 5, 6, 7] \<and>
   prf_index_ok allocator8 0 \<and> rename_history allocator8 100 = None \<and>
   (\<exists>s'. rename_dest_then_undo allocator8 5 100 = Inr s' \<and>
      frontend_RAT s' = frontend_RAT allocator8 \<and>
      rename_history s' = rename_history allocator8 \<and>
      free_registers s' = [1, 2, 3, 4, 5, 6, 7, 0] \<and>
      physical_register_file s' = (physical_register_file allocator8)[prf_index 0 := free_slot])"
proof -
  have h: "rat_index_ok 5" "free_registers allocator8 = 0 # [1, 2, 3, 4, 5, 6, 7]"
    "prf_index_ok allocator8 0" "rename_history allocator8 100 = None"
    by (simp_all add: rat_index_ok_def prf_index_ok_def allocator8_def)
  show ?thesis
    using rename_dest_then_undo_restores [OF h] h by auto
qed

text \<open>
  The round trip does not restore every state. From a new allocator, the slot of the
  register that was handed out and taken back holds \<open>arch_reg_index = 255\<close> where the
  constructor had put 0. And when the instruction already has recorded renames, undoing
  it takes those back as well: its earlier history is gone and the frontend entry of the
  register it renamed earlier is not the one from before the pair of calls.
\<close>

theorem rename_dest_then_undo_counterexample:
  "free_registers allocator8 \<noteq> [] \<and>
   \<not> isl (rename_dest_then_undo allocator8 5 100) \<and>
   arch_reg_index (physical_register_file allocator8 ! 0) = 0 \<and>
   arch_reg_index
     (physical_register_file (outcome_state (rename_dest_then_undo allocator8 5 100)) ! 0) = 255 \<and>
   physical_register_file (outcome_state (rename_dest_then_undo allocator8 5 100))
     \<noteq> physical_register_file allocator8 \<and>
   free_registers renamed_twice \<noteq> [] \<and>
   \<not> isl (rename_dest_then_undo renamed_twice 9 200) \<and>
   rename_history renamed_twice 200 \<noteq> None \<and>
   rename_history (outcome_state (rename_dest_then_undo renamed_twice 9 200)) 200 = None \<and>
   frontend_RAT renamed_twice 7 = 1 \<and>
   frontend_RAT (outcome_state (rename_dest_then_undo renamed_twice 9 200)) 7 = - 1"
proof -
  have h: "rat_index_ok 5" "free_registers allocator8 = 0 # [1, 2, 3, 4, 5, 6, 7]"
    "prf_index_ok allocator8 0" "rename_history allocator8 100 = None"
    by (simp_all add: rat_index_ok_def prf_index_ok_def allocator8_def)
  have a: "arch_reg_index (physical_register_file allocator8 ! 0) = 0"
    by (simp add: allocator8_def)
  note r = rename_dest_then_undo_Inr [OF h]
  have "physical_register_file (outcome_state (rename_dest_then_undo allocator8 5 100)) ! 0 =
      free_slot"
    unfolding r by (simp add: outcome_state_def prf_index_def allocator8_def)
  then have b: "arch_reg_index
     (physical_register_file (outcome_state (rename_dest_then_undo allocator8 5 100)) ! 0) = 255"
    by (simp add: free_slot_def)
  from a b have c: "physical_register_file (outcome_state (rename_dest_then_undo allocator8 5 100))
     \<noteq> physical_register_file allocator8"
    by auto
  have d: "\<not> isl (rename_dest_then_undo allocator8 5 100)"
    unfolding r by simp
  have e: "\<not> isl (rename_dest_then_undo renamed_twice 9 200)"
    "rename_history (outcome_state (rename_dest_then_undo renamed_twice 9 200)) 200 = None"
    "frontend_RAT (outcome_state (rename_dest_then_undo renamed_twice 9 200)) 7 = - 1"
    by code_simp+
  have f: "free_registers renamed_twice \<noteq> []" "rename_history renamed_twice 200 \<noteq> None"
    "frontend_RAT renamed_twice 7 = 1" "free_registers allocator8 \<noteq> []"
    by (simp_all add: renamed_twice_def allocator8_def)
  show ?thesis
    using a b c d e f by simp
qed

section \<open>The free list and the busy flags\<close>

lemma free_list_inv_head:
  assumes "free_list_inv (p # rest) slots"
  shows "0 \<le> sint p" and "prf_index p < length slots" and "\<not> busy (slots ! prf_index p)"
  using assms by (auto simp: free_list_inv_def)

lemma free_list_inv_pop:
  assumes "free_list_inv (p # rest) slots" and "busy b"
  shows "free_list_inv rest (slots[prf_index p := b])"
proof -
  from assms(1) have d: "prf_index p \<notin> set (map prf_index rest)"
    and s: "insert (prf_index p) (set (map prf_index rest)) = {i. i < length slots \<and> \<not> busy (slots ! i)}"
    by (simp_all add: free_list_inv_def)
  have "set (map prf_index rest) = {i. i < length slots \<and> \<not> busy (slots[prf_index p := b] ! i)}"
  proof (rule set_eqI)
    fix i
    show "i \<in> set (map prf_index rest) \<longleftrightarrow>
        i \<in> {i. i < length slots \<and> \<not> busy (slots[prf_index p := b] ! i)}"
    proof (cases "i = prf_index p")
      case True
      then show ?thesis using d assms(2) by (cases "i < length slots") simp_all
    next
      case False
      then have "i \<in> set (map prf_index rest) \<longleftrightarrow> i < length slots \<and> \<not> busy (slots ! i)"
        using s by blast
      then show ?thesis using False by simp
    qed
  qed
  then show ?thesis
    using assms(1) by (simp add: free_list_inv_def)
qed

lemma free_list_inv_push:
  assumes "free_list_inv fr slots" and "0 \<le> sint p" and "prf_index p < length slots"
    and "p \<notin> set fr" and "\<not> busy b"
  shows "free_list_inv (fr @ [p]) (slots[prf_index p := b])"
proof -
  from assms(1) have nn: "\<forall>q \<in> set fr. 0 \<le> sint q"
    and s: "set (map prf_index fr) = {i. i < length slots \<and> \<not> busy (slots ! i)}"
    and dist: "distinct (map prf_index fr)"
    by (simp_all add: free_list_inv_def)
  have d: "prf_index p \<notin> set (map prf_index fr)"
  proof
    assume "prf_index p \<in> set (map prf_index fr)"
    then obtain q where q: "q \<in> set fr" "prf_index p = prf_index q" by auto
    then have "p = q" using nn assms(2) by (intro prf_index_inj) simp_all
    then show False using q(1) assms(4) by simp
  qed
  have "insert (prf_index p) (set (map prf_index fr)) =
      {i. i < length slots \<and> \<not> busy (slots[prf_index p := b] ! i)}"
  proof (rule set_eqI)
    fix i
    show "i \<in> insert (prf_index p) (set (map prf_index fr)) \<longleftrightarrow>
        i \<in> {i. i < length slots \<and> \<not> busy (slots[prf_index p := b] ! i)}"
    proof (cases "i = prf_index p")
      case True
      then show ?thesis using assms(3,5) by simp
    next
      case False
      have "i \<in> set (map prf_index fr) \<longleftrightarrow> i < length slots \<and> \<not> busy (slots ! i)"
        using s by blast
      then show ?thesis using False by simp
    qed
  qed
  then show ?thesis
    using nn dist d assms(2) by (simp add: free_list_inv_def)
qed

lemma free_list_inv_same_busy:
  assumes "free_list_inv fr slots" and "i < length slots" and "busy b = busy (slots ! i)"
  shows "free_list_inv fr (slots[i := b])"
proof -
  have "{j. j < length slots \<and> \<not> busy (slots[i := b] ! j)} = {j. j < length slots \<and> \<not> busy (slots ! j)}"
    using assms(2,3) by (auto simp: nth_list_update)
  then show ?thesis
    using assms(1) by (simp add: free_list_inv_def)
qed

lemma free_list_inv_count:
  assumes "free_list_inv fr slots"
  shows "length fr + length (filter busy slots) = length slots"
proof -
  from assms have dist: "distinct (map prf_index fr)"
    and s: "set (map prf_index fr) = {i. i < length slots \<and> \<not> busy (slots ! i)}"
    unfolding free_list_inv_def by blast+
  have "length fr = length (map prf_index fr)" by simp
  also have "\<dots> = card (set (map prf_index fr))"
    using dist by (rule distinct_card [symmetric])
  also have "\<dots> = card {i. i < length slots \<and> \<not> busy (slots ! i)}"
    unfolding s ..
  also have "\<dots> = length (filter (\<lambda>r. \<not> busy r) slots)"
    by (simp add: length_filter_conv_card)
  finally show ?thesis
    using sum_length_filter_compl [of busy slots] by simp
qed

lemma free_list_inv_new:
  assumes "n \<le> 32767"
  shows "free_list_inv (map of_nat [0..<n])
     (replicate n \<lparr>arch_reg_index = 0, producing_instruction_id = 0, valid = False, busy = False\<rparr>)"
proof -
  have idx: "map prf_index (map of_nat [0..<n]) = [0..<n]"
    using assms by (intro nth_equalityI) (simp_all add: prf_index_of_nat)
  have "\<forall>p \<in> set (map of_nat [0..<n] :: PHYSICAL_REGISTER_ID list). 0 \<le> sint p"
    using assms by (auto simp: sint_of_nat_16)
  then show ?thesis
    unfolding free_list_inv_def idx by auto
qed

lemma undo_loop_inv:
  assumes "free_list_inv (free_registers s) (physical_register_file s)"
    and "\<forall>c \<in> set cps. rat_index_ok (arch_reg c) \<and> prf_index_ok s (new_phys_reg c)
           \<and> new_phys_reg c \<notin> set (free_registers s)"
    and "distinct (map new_phys_reg cps)"
  shows "\<exists>s'. undo_loop s cps = Inr s' \<and>
     free_list_inv (free_registers s') (physical_register_file s') \<and>
     length (physical_register_file s') = length (physical_register_file s)"
  using assms
proof (induction cps arbitrary: s)
  case Nil
  then show ?case by simp
next
  case (Cons c cps)
  let ?s1 = "undo_checkpoint s c"
  from Cons.prems(2) have c: "rat_index_ok (arch_reg c)" "prf_index_ok s (new_phys_reg c)"
    "new_phys_reg c \<notin> set (free_registers s)"
    by simp_all
  have inv1: "free_list_inv (free_registers ?s1) (physical_register_file ?s1)"
    using Cons.prems(1) c(2,3)
    by (simp add: undo_checkpoint_prf prf_index_ok_def prf_index_def [symmetric]
        free_list_inv_push free_slot_def)
  have rest: "\<forall>c' \<in> set cps. rat_index_ok (arch_reg c') \<and> prf_index_ok ?s1 (new_phys_reg c')
           \<and> new_phys_reg c' \<notin> set (free_registers ?s1)"
  proof
    fix c'
    assume m: "c' \<in> set cps"
    then have "new_phys_reg c' \<in> new_phys_reg ` set cps"
      by (rule imageI)
    moreover have "new_phys_reg c \<notin> new_phys_reg ` set cps"
      using Cons.prems(3) by simp
    ultimately have "new_phys_reg c' \<noteq> new_phys_reg c"
      by metis
    then show "rat_index_ok (arch_reg c') \<and> prf_index_ok ?s1 (new_phys_reg c')
           \<and> new_phys_reg c' \<notin> set (free_registers ?s1)"
      using Cons.prems(2) m by (simp add: prf_index_ok_def)
  qed
  have "distinct (map new_phys_reg cps)"
    using Cons.prems(3) by simp
  from Cons.IH [OF inv1 rest this] show ?case
    using c(1) by simp
qed

lemma undo_rename_inv:
  assumes "free_list_inv (free_registers s) (physical_register_file s)"
    and "legal s (Undo_rename iid)"
  shows "\<exists>s'. undo_rename s iid = Inr s' \<and>
     free_list_inv (free_registers s') (physical_register_file s') \<and>
     length (physical_register_file s') = length (physical_register_file s)"
proof (cases "rename_history s iid")
  case None
  then show ?thesis using assms(1) by (simp add: undo_rename_def)
next
  case (Some cps)
  with assms(2) have "\<forall>c \<in> set (rev cps). rat_index_ok (arch_reg c) \<and> prf_index_ok s (new_phys_reg c)
           \<and> new_phys_reg c \<notin> set (free_registers s)"
    and "distinct (map new_phys_reg (rev cps))"
    by (simp_all add: rev_map [symmetric])
  from undo_loop_inv [OF assms(1) this] obtain s1 where
    "undo_loop s (rev cps) = Inr s1"
    "free_list_inv (free_registers s1) (physical_register_file s1)"
    "length (physical_register_file s1) = length (physical_register_file s)"
    by blast
  then show ?thesis using Some by (simp add: undo_rename_def)
qed

lemma free_register_inv:
  assumes "free_list_inv (free_registers s) (physical_register_file s)"
    and "prf_index_ok s p" and "p \<notin> set (free_registers s)"
  shows "\<exists>s'. free_register s p = Inr s' \<and>
     free_list_inv (free_registers s') (physical_register_file s') \<and>
     length (physical_register_file s') = length (physical_register_file s)"
  using assms free_register_Inr [OF assms(2)]
  by (simp add: prf_index_ok_def prf_index_def [symmetric] free_list_inv_push free_slot_def)

lemma rename_dest_register_inv:
  assumes "free_list_inv (free_registers s) (physical_register_file s)"
    and "legal s (Rename_dest reg producer_id)"
  shows "\<exists>s' p. rename_dest_register s reg producer_id = Inr (s', p) \<and>
     free_list_inv (free_registers s') (physical_register_file s') \<and>
     length (physical_register_file s') = length (physical_register_file s)"
proof -
  from assms(2) obtain p rest where fr: "free_registers s = p # rest" and ok: "rat_index_ok reg"
    by (cases "free_registers s") simp_all
  have hd: "0 \<le> sint p" "prf_index p < length (physical_register_file s)"
    using free_list_inv_head [of p rest "physical_register_file s"] assms(1) fr by simp_all
  then have idx: "prf_index_ok s p"
    by (simp add: prf_index_ok_def prf_index_def)
  show ?thesis
    using rename_dest_register_Inr [OF fr ok idx, of producer_id] assms(1) fr
    by (simp add: free_list_inv_pop)
qed

lemma rename_src_register_inv:
  assumes "free_list_inv (free_registers s) (physical_register_file s)"
    and "legal s (Rename_src reg)"
  shows "\<exists>s' p. rename_src_register s reg = Inr (s', p) \<and>
     free_list_inv (free_registers s') (physical_register_file s') \<and>
     length (physical_register_file s') = length (physical_register_file s)"
proof (cases "sint (frontend_RAT s (rat_index reg)) < 0")
  case False
  then show ?thesis
    using assms by (simp add: rename_src_register_def Let_def)
next
  case True
  with assms(2) obtain p rest where fr: "free_registers s = p # rest" and ok: "rat_index_ok reg"
    by (cases "free_registers s") simp_all
  have hd: "0 \<le> sint p" "prf_index p < length (physical_register_file s)"
    using free_list_inv_head [of p rest "physical_register_file s"] assms(1) fr by simp_all
  then have idx: "prf_index_ok s p"
    by (simp add: prf_index_ok_def prf_index_def)
  show ?thesis
    using True ok fr idx assms(1)
    by (simp add: rename_src_register_def Let_def prf_index_ok_def free_list_inv_pop)
qed

lemma complete_dest_register_inv:
  assumes "free_list_inv (free_registers s) (physical_register_file s)"
    and "legal s (Complete p)"
  shows "\<exists>s'. complete_dest_register s p = Inr s' \<and>
     free_list_inv (free_registers s') (physical_register_file s') \<and>
     length (physical_register_file s') = length (physical_register_file s)"
  using assms
  by (simp add: complete_dest_register_def prf_index_ok_def prf_index_def [symmetric]
      free_list_inv_same_busy)

lemma retire_dest_register_inv:
  assumes "free_list_inv (free_registers s) (physical_register_file s)"
    and "legal s (Retire p)"
  shows "\<exists>s'. retire_dest_register s p = Inr s' \<and>
     free_list_inv (free_registers s') (physical_register_file s') \<and>
     length (physical_register_file s') = length (physical_register_file s)"
proof -
  let ?a = "arch_reg_index (physical_register_file s ! prf_index p)"
  let ?old = "backend_RAT s (ucast ?a)"
  let ?s1 = "s\<lparr>backend_RAT := (backend_RAT s)(ucast ?a := p)\<rparr>"
  from assms(2) have p: "prf_index_ok s p" and a: "unat ?a < 256"
    and old: "?old \<noteq> - 1 \<longrightarrow> prf_index_ok s ?old \<and> ?old \<notin> set (free_registers s)"
    by (simp_all add: Let_def)
  show ?thesis
  proof (cases "?old = - 1")
    case True
    then show ?thesis
      using p a assms(1) by (simp add: retire_dest_register_def Let_def)
  next
    case False
    have r: "retire_dest_register s p = free_register ?s1 ?old"
      using p a False by (simp add: retire_dest_register_def Let_def)
    have "prf_index_ok ?s1 ?old" "?old \<notin> set (free_registers ?s1)"
      "free_list_inv (free_registers ?s1) (physical_register_file ?s1)"
      using old False assms(1) by (simp_all add: prf_index_ok_def)
    from free_register_inv [OF this(3,1,2)] show ?thesis
      unfolding r by simp
  qed
qed

lemma perform_inv:
  assumes "free_list_inv (free_registers s) (physical_register_file s)" and "legal s x"
  shows "\<exists>s'. perform s x = Inr s' \<and>
     free_list_inv (free_registers s') (physical_register_file s') \<and>
     length (physical_register_file s') = length (physical_register_file s)"
proof (cases x)
  case (Rename_dest reg producer_id)
  then show ?thesis
    using rename_dest_register_inv [OF assms(1), of reg producer_id] assms(2) by auto
next
  case (Rename_src reg)
  then show ?thesis
    using rename_src_register_inv [OF assms(1), of reg] assms(2) by auto
next
  case (Complete p)
  then show ?thesis
    using complete_dest_register_inv [OF assms(1), of p] assms(2) by simp
next
  case (Retire p)
  then show ?thesis
    using retire_dest_register_inv [OF assms(1), of p] assms(2) by simp
next
  case (Free_register p)
  then show ?thesis
    using free_register_inv [OF assms(1), of p] assms(2) by simp
next
  case (Record_rename iid reg old_phys new_phys)
  then show ?thesis
    using assms(1) by (simp add: record_rename_def Let_def)
next
  case (Undo_rename iid)
  then show ?thesis
    using undo_rename_inv [OF assms(1), of iid] assms(2) by simp
next
  case (Retire_rename iid)
  then show ?thesis
    using assms(1) by (simp add: retire_rename_def split: option.splits)
next
  case Reset_frontend_RAT
  then show ?thesis
    using assms(1) by (simp add: reset_frontend_RAT_def)
qed

lemma run_inv:
  assumes "free_list_inv (free_registers s) (physical_register_file s)" and "legal_run s xs"
  shows "\<exists>s'. run s xs = Inr s' \<and>
     free_list_inv (free_registers s') (physical_register_file s') \<and>
     length (physical_register_file s') = length (physical_register_file s)"
  using assms
proof (induction xs arbitrary: s)
  case Nil
  then show ?case by simp
next
  case (Cons x xs)
  from Cons.prems(2) have l: "legal s x" by simp
  from perform_inv [OF Cons.prems(1) l] obtain s1 where s1: "perform s x = Inr s1"
    "free_list_inv (free_registers s1) (physical_register_file s1)"
    "length (physical_register_file s1) = length (physical_register_file s)"
    by blast
  from Cons.prems(2) s1(1) have "legal_run s1 xs" by simp
  from Cons.IH [OF s1(2) this] show ?case
    using s1(1,3) by simp
qed

section \<open>Conservation of registers\<close>

text \<open>
  C3. From a new allocator with \<open>n\<close> registers, after any sequence of operations each of
  which is legal in the state it is applied to, every operation has returned, the
  register file still has \<open>n\<close> slots, and the length of the free list plus the number of
  busy slots is \<open>n\<close>.
\<close>

theorem free_plus_busy_is_total:
  assumes "RegisterAllocator_new n = Inr s0" and "legal_run s0 xs"
  shows "\<exists>s. run s0 xs = Inr s \<and>
     length (physical_register_file s) = n \<and>
     count_free_registers s + count_busy s = n"
proof -
  from assms(1) have n: "n \<le> 32767"
    and s0: "free_registers s0 = map of_nat [0..<n]"
      "physical_register_file s0 =
         replicate n \<lparr>arch_reg_index = 0, producing_instruction_id = 0, valid = False, busy = False\<rparr>"
    by (auto simp: RegisterAllocator_new_def split: if_splits)
  have "free_list_inv (free_registers s0) (physical_register_file s0)"
    unfolding s0 using n by (rule free_list_inv_new)
  from run_inv [OF this assms(2)] obtain s where s: "run s0 xs = Inr s"
    "free_list_inv (free_registers s) (physical_register_file s)"
    "length (physical_register_file s) = length (physical_register_file s0)"
    by blast
  have "count_free_registers s + count_busy s = length (physical_register_file s)"
    using free_list_inv_count [OF s(2)] by (simp add: count_free_registers_def count_busy_def)
  then show ?thesis
    using s(1,3) s0(2) by simp
qed

theorem free_plus_busy_is_total_witness:
  "RegisterAllocator_new 8 = Inr allocator8 \<and>
   legal_run allocator8
     [Rename_dest 5 100, Record_rename 100 5 (- 1) 0, Complete 0, Retire 0, Retire_rename 100,
      Rename_src 3, Rename_dest 5 101, Record_rename 101 5 0 2, Undo_rename 101,
      Reset_frontend_RAT, Rename_dest 5 102, Record_rename 102 5 0 3, Complete 3, Retire 3,
      Retire_rename 102, Free_register 1] \<and>
   (\<exists>s. run allocator8
      [Rename_dest 5 100, Record_rename 100 5 (- 1) 0, Complete 0, Retire 0, Retire_rename 100,
       Rename_src 3, Rename_dest 5 101, Record_rename 101 5 0 2, Undo_rename 101,
       Reset_frontend_RAT, Rename_dest 5 102, Record_rename 102 5 0 3, Complete 3, Retire 3,
       Retire_rename 102, Free_register 1] = Inr s \<and>
      length (physical_register_file s) = 8 \<and>
      count_free_registers s + count_busy s = 8)"
proof -
  let ?xs = "[Rename_dest 5 100, Record_rename 100 5 (- 1) 0, Complete 0, Retire 0, Retire_rename 100,
      Rename_src 3, Rename_dest 5 101, Record_rename 101 5 0 2, Undo_rename 101,
      Reset_frontend_RAT, Rename_dest 5 102, Record_rename 102 5 0 3, Complete 3, Retire 3,
      Retire_rename 102, Free_register 1]"
  have l: "legal_run allocator8 ?xs"
    by code_simp
  show ?thesis
    using free_plus_busy_is_total [OF new_allocator8 l] new_allocator8 l by simp
qed

end
